theory Spec2Isabelle
  imports Main "HOL-Library.Word"
begin

section \<open>Strings and failures\<close>

text \<open>
  Text that flows through the playground (source, compiled Lua, source map) is a
  JavaScript string: a sequence of UTF-16 code units. A character outside the Basic
  Multilingual Plane, such as an emoji, is two code units (a surrogate pair). Identifiers
  of the program itself (console methods, CSS class names) are plain \<open>string\<close>s.
\<close>

type_synonym jsstring = "16 word list"

definition js :: "string \<Rightarrow> jsstring" where
  "js s = map (\<lambda>c. of_nat (of_char c)) s"

text \<open>
  \<open>InvalidCharacterError\<close> is what \<open>btoa\<close> throws; \<open>TypeError\<close> and \<open>Thrown\<close> stand
  for an exception raised by a callee; \<open>PromiseRejected\<close> is an awaited promise that
  rejects.
\<close>

datatype jserror = InvalidCharacterError | TypeError | Thrown | PromiseRejected

text \<open>A value of type \<open>any\<close> that may be \<open>undefined\<close> or \<open>null\<close>.\<close>

datatype 'a nullable = Undefined | Null | Value 'a

text \<open>\<open>Array.prototype.join\<close> on an array of strings.\<close>

fun join :: "'a list \<Rightarrow> 'a list list \<Rightarrow> 'a list" where
  "join sep [] = []"
| "join sep [x] = x"
| "join sep (x # y # ys) = x @ sep @ join sep (y # ys)"

text \<open>
  \<open>Array.prototype.map\<close> with a callback that may throw: the first exception leaves the
  loop and is the result.
\<close>

fun map_throwing :: "('a \<Rightarrow> jserror + 'b) \<Rightarrow> 'a list \<Rightarrow> jserror + 'b list" where
  "map_throwing f [] = Inr []"
| "map_throwing f (x # xs) =
     (case f x of
        Inl e \<Rightarrow> Inl e
      | Inr y \<Rightarrow> (case map_throwing f xs of Inl e \<Rightarrow> Inl e | Inr ys \<Rightarrow> Inr (y # ys)))"

section \<open>The browser's base64 functions\<close>

text \<open>
  \<open>btoa\<close> is a built-in of the browser (HTML standard, section "Base64 utility
  methods"): it throws \<open>InvalidCharacterError\<close> when the string has a code unit above
  \<open>0xFF\<close>, and otherwise encodes the code units as bytes in base64 (RFC 4648, with
  padding).
\<close>

definition b64chars :: string where
  "b64chars = ''ABCDEFGHIJKLMNOPQRSTUVWXYZabcdefghijklmnopqrstuvwxyz0123456789+/''"

definition b64units :: jsstring where
  "b64units = js b64chars"

definition echar :: "nat \<Rightarrow> 16 word" where
  "echar n = b64units ! n"

definition pad :: "16 word" where
  "pad = 0x3D"

fun encode :: "nat list \<Rightarrow> jsstring" where
  "encode [] = []"
| "encode [a] = [echar (a div 4), echar ((a mod 4) * 16), pad, pad]"
| "encode [a, b] =
     [echar (a div 4), echar ((a mod 4) * 16 + b div 16), echar ((b mod 16) * 4), pad]"
| "encode (a # b # c # rest) =
     [echar (a div 4), echar ((a mod 4) * 16 + b div 16),
      echar ((b mod 16) * 4 + c div 64), echar (c mod 64)] @ encode rest"

definition btoa :: "jsstring \<Rightarrow> jserror + jsstring" where
  "btoa s = (if list_ex (\<lambda>u. 0xFF < u) s then Inl InvalidCharacterError
             else Inr (encode (map unat s)))"

text \<open>
  The reading side, for the round trip: a strict RFC 4648 decoder. Every group has four
  characters of the alphabet; only the last group may end in one or two \<open>=\<close>.
\<close>

definition dchar :: "16 word \<Rightarrow> nat option" where
  "dchar u = map_of (zip b64units [0..<64]) u"

definition quad3 :: "nat \<Rightarrow> nat \<Rightarrow> nat \<Rightarrow> nat \<Rightarrow> nat list" where
  "quad3 s1 s2 s3 s4 =
     [s1 * 4 + s2 div 16, (s2 mod 16) * 16 + s3 div 4, (s3 mod 4) * 64 + s4]"

fun decode :: "jsstring \<Rightarrow> nat list option" where
  "decode [] = Some []"
| "decode (c1 # c2 # c3 # c4 # rest) =
     (case (dchar c1, dchar c2) of
        (Some s1, Some s2) \<Rightarrow>
          (if rest = [] \<and> c3 = pad \<and> c4 = pad then Some [s1 * 4 + s2 div 16]
           else (case dchar c3 of
                   None \<Rightarrow> None
                 | Some s3 \<Rightarrow>
                     (if rest = [] \<and> c4 = pad
                      then Some [s1 * 4 + s2 div 16, (s2 mod 16) * 16 + s3 div 4]
                      else (case dchar c4 of
                              None \<Rightarrow> None
                            | Some s4 \<Rightarrow>
                                map_option ((@) (quad3 s1 s2 s3 s4)) (decode rest)))))
      | _ \<Rightarrow> None)"
| "decode _ = None"

definition atob :: "jsstring \<Rightarrow> jsstring option" where
  "atob s = map_option (map of_nat) (decode s)"

section \<open>The source-map link of the output pane\<close>

text \<open>
  \<open>s.replace(/[^\x00-\x7F]/g, "?")\<close>: the pattern has no \<open>u\<close> flag, so it matches one
  code unit at a time; every code unit above \<open>0x7F\<close> becomes \<open>?\<close> (\<open>0x3F\<close>).
\<close>

definition replace_non_ascii :: "jsstring \<Rightarrow> jsstring" where
  "replace_non_ascii s = map (\<lambda>u. if u \<le> 0x7F then u else 0x3F) s"

definition url_prefix :: jsstring where
  "url_prefix = js ''https://sokra.github.io/source-map-visualization#base64,''"

text \<open>\<open>OutputPane.sourceMapUrl\<close>, as a function of the three fields it reads.\<close>

definition sourceMapUrl :: "jsstring \<Rightarrow> jsstring \<Rightarrow> jsstring \<Rightarrow> jserror + jsstring" where
  "sourceMapUrl lua_text sourceMap_text source_text =
     (case map_throwing (\<lambda>s. btoa (replace_non_ascii s))
             [lua_text, sourceMap_text, source_text] of
        Inl e \<Rightarrow> Inl e
      | Inr inputs \<Rightarrow> Inr (url_prefix @ join (js '','') inputs))"

text \<open>
  What a reader of the link does, in the words of the specification: the part after
  \<open>#base64,\<close> is split at the commas (\<open>String.prototype.split\<close>) and each payload is
  base64-decoded.
\<close>

fun split_on :: "'a \<Rightarrow> 'a list \<Rightarrow> 'a list list" where
  "split_on sep [] = [[]]"
| "split_on sep (x # xs) =
     (if x = sep then [] # split_on sep xs
      else (case split_on sep xs of [] \<Rightarrow> [[x]] | y # ys \<Rightarrow> (x # y) # ys))"

fun those_list :: "'a option list \<Rightarrow> 'a list option" where
  "those_list [] = Some []"
| "those_list (None # xs) = None"
| "those_list (Some x # xs) = map_option ((#) x) (those_list xs)"

definition is_ascii :: "jsstring \<Rightarrow> bool" where
  "is_ascii s = list_all (\<lambda>u. u \<le> 0x7F) s"

definition decode_payloads :: "jsstring \<Rightarrow> jsstring list option" where
  "decode_payloads url =
     (if take (length url_prefix) url = url_prefix
      then those_list (map atob (split_on 0x2C (drop (length url_prefix) url)))
      else None)"

section \<open>Console output\<close>

text \<open>
  A \<open>ConsoleMessage\<close> comes from the executor: its field \<open>method\<close> (here
  \<open>message_method\<close>) and the printed values, each of which may be \<open>undefined\<close> or
  \<open>null\<close>.
\<close>

record 'v ConsoleMessage =
  message_method :: string
  data :: "'v nullable list"

text \<open>
  \<open>formatLuaOutputData\<close> is \<open>data?.toString() ?? ""\<close>. The optional call is skipped
  for a nullish \<open>data\<close>; otherwise \<open>toString\<close> runs, and may throw or return a nullish
  value itself, which \<open>??\<close> also turns into the empty string. \<open>toString\<close> is the method
  of the value, so it is a parameter here.
\<close>

definition formatLuaOutputData ::
  "('v \<Rightarrow> jserror + string nullable) \<Rightarrow> 'v nullable \<Rightarrow> jserror + string" where
  "formatLuaOutputData toString d =
     (case d of
        Undefined \<Rightarrow> Inr ''''
      | Null \<Rightarrow> Inr ''''
      | Value v \<Rightarrow>
          (case toString v of
             Inl e \<Rightarrow> Inl e
           | Inr Undefined \<Rightarrow> Inr ''''
           | Inr Null \<Rightarrow> Inr ''''
           | Inr (Value s) \<Rightarrow> Inr s))"

text \<open>The class names of the style sheet, which is not part of the sources read here.\<close>

record styles =
  luaOutputTerminalRow :: string
  luaOutputTerminalError :: string

definition consoleOutputRowClass :: "styles \<Rightarrow> 'v ConsoleMessage \<Rightarrow> string" where
  "consoleOutputRowClass st m =
     (let rowClass = luaOutputTerminalRow st in
      if message_method m = ''error'' then rowClass @ '' '' @ luaOutputTerminalError st
      else rowClass)"

text \<open>
  One row of \<open>LuaOutput\<close>: its class and its text,
  \<open>r.data.map(formatLuaOutputData).join("\t")\<close>.
\<close>

definition row_text ::
  "('v \<Rightarrow> jserror + string nullable) \<Rightarrow> 'v ConsoleMessage \<Rightarrow> jserror + string" where
  "row_text toString r =
     (case map_throwing (formatLuaOutputData toString) (data r) of
        Inl e \<Rightarrow> Inl e
      | Inr cells \<Rightarrow> Inr (join [CHR 0x09] cells))"

definition LuaOutput ::
  "styles \<Rightarrow> ('v \<Rightarrow> jserror + string nullable) \<Rightarrow> 'v ConsoleMessage list
    \<Rightarrow> jserror + (string \<times> string) list" where
  "LuaOutput st toString rs =
     map_throwing
       (\<lambda>r. case row_text toString r of
               Inl e \<Rightarrow> Inl e
             | Inr txt \<Rightarrow> Inr (consoleOutputRowClass st r, txt)) rs"

section \<open>Panel state and editor state\<close>

datatype PanelKind = Input | Output

record PanelState =
  activePanel :: PanelKind

record ('ast, 'v) EditorState =
  source :: jsstring
  lua :: jsstring
  sourceMap :: jsstring
  ast :: 'ast
  results :: "'v ConsoleMessage list"

text \<open>What \<open>getTranspileOutput\<close> resolves to.\<close>

datatype 'ast TranspileOutput =
  TranspileOutput (out_lua: jsstring) (out_ast: 'ast) (out_sourceMap: jsstring)

text \<open>
  One invocation of \<open>updateModel\<close> is an asynchronous function with two \<open>await\<close>s. A
  suspended invocation is a task: waiting for the transpiler, or waiting for the executor
  with its local constants \<open>source\<close>, \<open>lua\<close>, \<open>ast\<close> and \<open>sourceMap\<close>, or finished, or
  ended by a rejected promise.
\<close>

datatype 'ast task =
    AwaitTranspile
  | AwaitExecute jsstring jsstring 'ast jsstring
  | Finished
  | Rejected

section \<open>The debounced change handler\<close>

text \<open>
  Modelled from the spec: \<open>debounce\<close> of \<open>src/utils\<close> is not among the sources. The
  specification describes it as a delay of the reaction "until they stop for a quiet
  period", where "each keystroke resets a countdown; only the final countdown firing
  triggers" the callback. The state of a debounced function is the pending countdown:
  its deadline and the argument of the latest call. Time is in milliseconds.
\<close>

type_synonym 'a debounced = "(nat \<times> 'a) option"

text \<open>
  Modelled from the spec: a call of the function that \<open>debounce\<close> (absent, in
  \<open>src/utils\<close>) returns. It "resets a countdown": whatever was pending is dropped and
  the new deadline is one quiet period ahead.
\<close>

definition debounce_call :: "nat \<Rightarrow> nat \<Rightarrow> 'a \<Rightarrow> 'a debounced \<Rightarrow> 'a debounced" where
  "debounce_call wait now arg pending = Some (now + wait, arg)"

text \<open>
  Modelled from the spec: the firing of the countdown of \<open>debounce\<close> (absent, in
  \<open>src/utils\<close>). The callback runs, with the argument of the latest call, when the
  calls have stopped "for a quiet period", that is when the deadline has been reached.
\<close>

definition debounce_due :: "nat \<Rightarrow> 'a debounced \<Rightarrow> 'a option" where
  "debounce_due now pending =
     (case pending of
        None \<Rightarrow> None
      | Some (deadline, arg) \<Rightarrow> if deadline \<le> now then Some arg else None)"

section \<open>The page as a transition system\<close>

text \<open>
  The state of the mounted page: the two \<open>useState\<close> cells, the suspended invocations of
  \<open>updateModel\<close> (a cycle is known by its position in \<open>tasks\<close>), the \<open>setState\<close> calls
  made so far with the cycle that made each, the text of the editor model, the two
  handles \<open>myEditor\<close> and \<open>myWorker\<close> of \<open>InputPane\<close> (whether each is set, as the
  debounced handler sees them), the pending countdown of the debounced handler, and the
  calls of \<open>updateCodeHistory\<close>.
\<close>

record ('ast, 'v) world =
  panel :: PanelState
  editor :: "('ast, 'v) EditorState"
  tasks :: "'ast task list"
  commits :: "(nat \<times> ('ast, 'v) EditorState) list"
  modelText :: jsstring
  myEditor :: bool
  myWorker :: bool
  timer :: "jsstring debounced"
  codeHistory :: "jsstring list"

text \<open>
  What the environment can do to the page. \<open>EditorMount\<close> is the editor calling
  \<open>onMount\<close>; \<open>WorkerReady\<close> is \<open>onMount\<close> resuming after its two \<open>await\<close>s; \<open>Change\<close>
  is an edit, with the new text; \<open>Idle\<close> is time passing; \<open>TranspileSettled i\<close> and
  \<open>ExecuteSettled i\<close> settle the promise that cycle \<open>i\<close> awaits; \<open>SetActivePanel\<close> is
  a click on a navbar button.
\<close>

datatype ('ast, 'v) event =
    EditorMount
  | WorkerReady
  | Change jsstring
  | Idle
  | TranspileSettled nat "jserror + 'ast TranspileOutput"
  | ExecuteSettled nat "jserror + 'v ConsoleMessage list"
  | SetActivePanel PanelKind

text \<open>The initial values of the two \<open>useState\<close> cells.\<close>

definition PanelState0 :: PanelState where
  "PanelState0 = \<lparr>activePanel = Input\<rparr>"

definition EditorState0 :: "'ast \<Rightarrow> ('ast, 'v) EditorState" where
  "EditorState0 empty_object =
     \<lparr>source = [], lua = [], sourceMap = [], ast = empty_object, results = []\<rparr>"

text \<open>
  The page at mount. \<open>getInitialCode()\<close> and the empty object \<open>{}\<close> of the initial
  syntax tree are parameters.
\<close>

definition init_world :: "jsstring \<Rightarrow> 'ast \<Rightarrow> ('ast, 'v) world" where
  "init_world initialCode empty_object =
     \<lparr>panel = PanelState0, editor = EditorState0 empty_object, tasks = [], commits = [],
      modelText = initialCode, myEditor = False, myWorker = False, timer = None,
      codeHistory = []\<rparr>"

text \<open>\<open>setState(s)\<close> called by cycle \<open>i\<close>: the cell is replaced by \<open>s\<close>.\<close>

definition setState ::
  "nat \<Rightarrow> ('ast, 'v) EditorState \<Rightarrow> ('ast, 'v) world \<Rightarrow> ('ast, 'v) world" where
  "setState i s w = w\<lparr>editor := s, commits := commits w @ [(i, s)]\<rparr>"

text \<open>
  A call of \<open>updateModel\<close>: it runs up to its first \<open>await\<close>, the request to the
  transpiler.
\<close>

definition updateModel :: "('ast, 'v) world \<Rightarrow> ('ast, 'v) world" where
  "updateModel w = w\<lparr>tasks := tasks w @ [AwaitTranspile]\<rparr>"

text \<open>
  \<open>updateModel\<close> resuming after the first \<open>await\<close>: it reads the model text, replaces
  the state, and calls the executor.
\<close>

definition transpile_settled ::
  "nat \<Rightarrow> jserror + 'ast TranspileOutput \<Rightarrow> ('ast, 'v) world \<Rightarrow> ('ast, 'v) world" where
  "transpile_settled i r w =
     (if i < length (tasks w) \<and> tasks w ! i = AwaitTranspile then
        (case r of
           Inl e \<Rightarrow> w\<lparr>tasks := (tasks w)[i := Rejected]\<rparr>
         | Inr out \<Rightarrow>
             (setState i
                \<lparr>source = modelText w, lua = out_lua out, sourceMap = out_sourceMap out,
                 ast = out_ast out, results = []\<rparr> w)
             \<lparr>tasks := (tasks w)[i := AwaitExecute (modelText w) (out_lua out)
                                     (out_ast out) (out_sourceMap out)]\<rparr>)
      else w)"

text \<open>\<open>updateModel\<close> resuming after the second \<open>await\<close>.\<close>

definition execute_settled ::
  "nat \<Rightarrow> jserror + 'v ConsoleMessage list \<Rightarrow> ('ast, 'v) world \<Rightarrow> ('ast, 'v) world" where
  "execute_settled i r w =
     (if i < length (tasks w) then
        (case tasks w ! i of
           AwaitExecute src l a sm \<Rightarrow>
             (case r of
                Inl e \<Rightarrow> w\<lparr>tasks := (tasks w)[i := Rejected]\<rparr>
              | Inr rs \<Rightarrow>
                  (setState i
                     \<lparr>source = src, lua = l, sourceMap = sm, ast = a, results = rs\<rparr> w)
                  \<lparr>tasks := (tasks w)[i := Finished]\<rparr>)
         | _ \<Rightarrow> w)
      else w)"

text \<open>
  The callback that \<open>onChange\<close> debounces. The editor passes the new text, so the
  \<open>?? ""\<close> of the source never applies.
\<close>

definition onChange_callback :: "jsstring \<Rightarrow> ('ast, 'v) world \<Rightarrow> ('ast, 'v) world" where
  "onChange_callback newValue w =
     (if myWorker w \<and> myEditor w
      then updateModel (w\<lparr>codeHistory := codeHistory w @ [newValue]\<rparr>)
      else w)"

definition quiet_period :: nat where
  "quiet_period = 250"

text \<open>Time reaching \<open>now\<close>: a countdown that is due fires first.\<close>

definition advance :: "nat \<Rightarrow> ('ast, 'v) world \<Rightarrow> ('ast, 'v) world" where
  "advance now w =
     (case debounce_due now (timer w) of
        None \<Rightarrow> w
      | Some newValue \<Rightarrow> onChange_callback newValue (w\<lparr>timer := None\<rparr>))"

fun handle :: "nat \<Rightarrow> ('ast, 'v) event \<Rightarrow> ('ast, 'v) world \<Rightarrow> ('ast, 'v) world" where
  "handle now EditorMount w = (if myEditor w then w else w\<lparr>myEditor := True\<rparr>)"
| "handle now WorkerReady w =
     (if myEditor w \<and> \<not> myWorker w then updateModel (w\<lparr>myWorker := True\<rparr>) else w)"
| "handle now (Change newValue) w =
     w\<lparr>modelText := newValue,
       timer := debounce_call quiet_period now newValue (timer w)\<rparr>"
| "handle now Idle w = w"
| "handle now (TranspileSettled i r) w = transpile_settled i r w"
| "handle now (ExecuteSettled i r) w = execute_settled i r w"
| "handle now (SetActivePanel k) w = w\<lparr>panel := \<lparr>activePanel = k\<rparr>\<rparr>"

definition step :: "('ast, 'v) world \<Rightarrow> nat \<times> ('ast, 'v) event \<Rightarrow> ('ast, 'v) world" where
  "step w te = handle (fst te) (snd te) (advance (fst te) w)"

definition run :: "('ast, 'v) world \<Rightarrow> (nat \<times> ('ast, 'v) event) list \<Rightarrow> ('ast, 'v) world" where
  "run w es = foldl step w es"

text \<open>The \<open>setState\<close> calls of one cycle, in order.\<close>

definition cycle_commits :: "nat \<Rightarrow> ('ast, 'v) world \<Rightarrow> ('ast, 'v) EditorState list" where
  "cycle_commits i w = map snd (filter (\<lambda>c. fst c = i) (commits w))"

section \<open>Predicates used in the statements\<close>

text \<open>
  The basic printable range, in the usual sense of the words: the ASCII characters from
  the space to the tilde. Control characters such as the line feed are outside it.
\<close>

definition is_basic_printable :: "16 word \<Rightarrow> bool" where
  "is_basic_printable u = (0x20 \<le> u \<and> u \<le> 0x7E)"


fun is_panel_switch :: "('ast, 'v) event \<Rightarrow> bool" where
  "is_panel_switch (SetActivePanel k) = True"
| "is_panel_switch _ = False"

fun is_change :: "('ast, 'v) event \<Rightarrow> bool" where
  "is_change (Change v) = True"
| "is_change _ = False"

text \<open>
  What the \<open>setState\<close> calls of a cycle must be, given how far the cycle is: none
  before the transpiler has answered; one, with the compile results and no console
  messages, while the executor runs; two when it has finished, the first being the second
  with the console messages emptied.
\<close>

fun phase_ok :: "'ast task \<Rightarrow> ('ast, 'v) EditorState list \<Rightarrow> bool" where
  "phase_ok AwaitTranspile cs = (cs = [])"
| "phase_ok (AwaitExecute src l a sm) cs =
     (cs = [\<lparr>source = src, lua = l, sourceMap = sm, ast = a, results = []\<rparr>])"
| "phase_ok Finished cs =
     (length cs = 2 \<and> results (cs ! 0) = [] \<and> cs ! 0 = (cs ! 1)\<lparr>results := []\<rparr>)"
| "phase_ok Rejected cs = (length cs \<le> 1)"

text \<open>
  The invariant of the page: every \<open>setState\<close> call was made by a started cycle, the
  calls of each cycle fit its phase, and the visible state is the argument of the latest
  call (the initial state before the first).
\<close>

definition consistent :: "('ast, 'v) EditorState \<Rightarrow> ('ast, 'v) world \<Rightarrow> bool" where
  "consistent s0 w =
     ((\<forall>c\<in>set (commits w). fst c < length (tasks w)) \<and>
      (\<forall>i<length (tasks w). phase_ok (tasks w ! i) (cycle_commits i w)) \<and>
      editor w = (if commits w = [] then s0 else snd (last (commits w))))"

text \<open>
  A burst: changes at non-decreasing times, each less than \<open>q\<close> milliseconds after the
  one before.
\<close>

fun burst :: "nat \<Rightarrow> (nat \<times> jsstring) list \<Rightarrow> bool" where
  "burst q [] = True"
| "burst q [c] = True"
| "burst q (c # d # cs) = (fst c \<le> fst d \<and> fst d < fst c + q \<and> burst q (d # cs))"

definition changes :: "(nat \<times> jsstring) list \<Rightarrow> (nat \<times> ('ast, 'v) event) list" where
  "changes cs = map (\<lambda>c. (fst c, Change (snd c))) cs"

section \<open>Scenarios\<close>

text \<open>The number of edits in a sequence of events.\<close>

definition count_changes :: "(nat \<times> ('ast, 'v) event) list \<Rightarrow> nat" where
  "count_changes es = length (filter is_change (map snd es))"

text \<open>The page mounts and the worker becomes available.\<close>

definition mounted :: "(nat \<times> (unit, nat) event) list" where
  "mounted = [(0, EditorMount), (0, WorkerReady)]"

text \<open>
  Two cycles overlap: the first starts at mount, the second 250 ms after an edit. Both
  transpile; the executor of the second finishes before the executor of the first.
\<close>

definition late_landing :: "(nat \<times> (unit, nat) event) list" where
  "late_landing =
     [(0, EditorMount), (0, WorkerReady),
      (100, Change (js ''new'')), (350, Idle),
      (400, TranspileSettled 0 (Inr (TranspileOutput (js ''lua0'') () (js ''map0'')))),
      (410, TranspileSettled 1 (Inr (TranspileOutput (js ''lua1'') () (js ''map1'')))),
      (420, ExecuteSettled 1 (Inr [\<lparr>message_method = ''log'', data = [Value 1]\<rparr>])),
      (430, ExecuteSettled 0 (Inr [\<lparr>message_method = ''log'', data = [Value 0]\<rparr>]))]"

section \<open>Facts about base64\<close>

lemma length_b64units: "length b64units = 64"
  by (simp add: b64units_def js_def b64chars_def)

lemma distinct_b64units: "distinct b64units"
  by (simp add: b64units_def js_def b64chars_def)

lemma pad_not_b64: "pad \<notin> set b64units"
  by (simp add: b64units_def js_def b64chars_def pad_def)

lemma comma_not_b64: "0x2C \<notin> set b64units"
  by (simp add: b64units_def js_def b64chars_def)

lemma comma_not_pad: "0x2C \<noteq> pad"
  by (simp add: pad_def)

lemma js_comma: "js '','' = [0x2C]"
  by (simp add: js_def)

lemma dchar_echar: "n < 64 \<Longrightarrow> dchar (echar n) = Some n"
  unfolding dchar_def echar_def
  using map_of_zip_nth[of b64units "[0..<64]" n] length_b64units distinct_b64units
  by simp

lemma echar_in: "n < 64 \<Longrightarrow> echar n \<in> set b64units"
  by (simp add: echar_def length_b64units)

lemma echar_not_pad: "n < 64 \<Longrightarrow> echar n \<noteq> pad"
  using pad_not_b64 echar_in by metis

lemma echar_not_comma: "n < 64 \<Longrightarrow> echar n \<noteq> 0x2C"
  using comma_not_b64 echar_in by metis

lemma sext_bounds:
  fixes a b c :: nat
  assumes "a < 256" "b < 256" "c < 256"
  shows "a div 4 < 64" "(a mod 4) * 16 < 64" "(a mod 4) * 16 + b div 16 < 64"
    "(b mod 16) * 4 < 64" "(b mod 16) * 4 + c div 64 < 64" "c mod 64 < 64"
  using assms by auto

lemma sext_join1:
  fixes a :: nat
  shows "(a div 4) * 4 + ((a mod 4) * 16) div 16 = a"
  by auto

lemma sext_join2:
  fixes a b :: nat
  assumes "b < 256"
  shows "(a div 4) * 4 + ((a mod 4) * 16 + b div 16) div 16 = a"
    "(((a mod 4) * 16 + b div 16) mod 16) * 16 + ((b mod 16) * 4) div 4 = b"
  using assms by auto

lemma sext_join3:
  fixes a b c :: nat
  assumes "b < 256" "c < 256"
  shows "(((a mod 4) * 16 + b div 16) mod 16) * 16 + ((b mod 16) * 4 + c div 64) div 4 = b"
    "(((b mod 16) * 4 + c div 64) mod 4) * 64 + c mod 64 = c"
  using assms by auto

lemma decode_encode:
  "\<forall>b\<in>set bs. b < 256 \<Longrightarrow> decode (encode bs) = Some bs"
proof (induction bs rule: encode.induct)
  case 1
  then show ?case by simp
next
  case (2 a)
  then have "a < 256" by simp
  then show ?case
    by (simp add: dchar_echar sext_bounds sext_join1)
next
  case (3 a b)
  then have "a < 256" "b < 256" by simp_all
  then show ?case
    by (simp add: dchar_echar echar_not_pad sext_bounds sext_join2)
next
  case (4 a b c rest)
  then have lt: "a < 256" "b < 256" "c < 256" by simp_all
  from 4 have IH: "decode (encode rest) = Some rest" by simp
  have "decode (encode (a # b # c # rest)) =
      map_option ((@) (quad3 (a div 4) ((a mod 4) * 16 + b div 16)
        ((b mod 16) * 4 + c div 64) (c mod 64))) (decode (encode rest))"
    using lt by (simp add: dchar_echar echar_not_pad sext_bounds)
  also have "\<dots> = Some (a # b # c # rest)"
    using lt by (simp add: IH quad3_def sext_join2 sext_join3)
  finally show ?case .
qed

lemma encode_no_comma:
  "\<forall>b\<in>set bs. b < 256 \<Longrightarrow> 0x2C \<notin> set (encode bs)"
proof (induction bs rule: encode.induct)
  case 1
  then show ?case by simp
next
  case (2 a)
  then have "a < 256" by simp
  then show ?case
    using comma_not_pad by (simp add: echar_not_comma sext_bounds)
next
  case (3 a b)
  then have "a < 256" "b < 256" by simp_all
  then show ?case
    using comma_not_pad by (simp add: echar_not_comma sext_bounds)
next
  case (4 a b c rest)
  then have "a < 256" "b < 256" "c < 256" "0x2C \<notin> set (encode rest)" by simp_all
  then show ?case
    by (simp add: echar_not_comma sext_bounds)
qed

section \<open>Facts about the source-map link\<close>

lemma split_on_plain: "sep \<notin> set a \<Longrightarrow> split_on sep a = [a]"
  by (induction a) auto

lemma split_on_append:
  "sep \<notin> set a \<Longrightarrow> split_on sep (a @ sep # r) = a # split_on sep r"
  by (induction a) auto

lemma ascii_bytes: "is_ascii s \<Longrightarrow> \<forall>b\<in>set (map unat s). b < 256"
  by (auto simp: is_ascii_def list_all_iff word_le_nat_alt)

lemma ascii_no_high: "is_ascii s \<Longrightarrow> \<not> list_ex (\<lambda>u. 0xFF < u) s"
  by (auto simp: is_ascii_def list_all_iff list_ex_iff word_le_nat_alt word_less_nat_alt)

lemma replace_ascii_id: "is_ascii s \<Longrightarrow> replace_non_ascii s = s"
  by (simp add: is_ascii_def replace_non_ascii_def list_all_iff map_idI)

lemma is_ascii_replace: "is_ascii (replace_non_ascii s)"
  by (auto simp: is_ascii_def replace_non_ascii_def list_all_iff)

lemma btoa_ascii: "is_ascii s \<Longrightarrow> btoa s = Inr (encode (map unat s))"
  by (simp add: btoa_def ascii_no_high)

lemma atob_encode: "is_ascii s \<Longrightarrow> atob (encode (map unat s)) = Some s"
  using decode_encode[OF ascii_bytes, of s] by (simp add: atob_def comp_def)

lemma sourceMapUrl_eq:
  "sourceMapUrl a b c =
     Inr (url_prefix @ encode (map unat (replace_non_ascii a)) @ [0x2C] @
          encode (map unat (replace_non_ascii b)) @ [0x2C] @
          encode (map unat (replace_non_ascii c)))"
  by (simp add: sourceMapUrl_def btoa_ascii is_ascii_replace js_comma)

lemma decode_payloads_url:
  assumes "is_ascii a" "is_ascii b" "is_ascii c"
  shows "decode_payloads (url_prefix @ encode (map unat a) @ [0x2C] @
           encode (map unat b) @ [0x2C] @ encode (map unat c)) = Some [a, b, c]"
proof -
  have nc: "0x2C \<notin> set (encode (map unat a))" "0x2C \<notin> set (encode (map unat b))"
    "0x2C \<notin> set (encode (map unat c))"
    using assms by (simp_all add: encode_no_comma ascii_bytes)
  have "split_on 0x2C (encode (map unat a) @ [0x2C] @ encode (map unat b) @ [0x2C] @
          encode (map unat c))
        = [encode (map unat a), encode (map unat b), encode (map unat c)]"
    using nc by (simp add: split_on_append split_on_plain)
  then show ?thesis
    using assms by (simp add: decode_payloads_def atob_encode)
qed

lemma sourceMapUrl_decodes:
  "decode_payloads (url_prefix @ encode (map unat (replace_non_ascii a)) @ [0x2C] @
      encode (map unat (replace_non_ascii b)) @ [0x2C] @
      encode (map unat (replace_non_ascii c))) =
   Some [replace_non_ascii a, replace_non_ascii b, replace_non_ascii c]"
  by (rule decode_payloads_url) (rule is_ascii_replace)+

text \<open>
  Without the substitution the link could not be built: \<open>btoa\<close> throws on the two code
  units of an emoji (U+1F600).
\<close>

lemma btoa_emoji_throws: "btoa [0xD83D, 0xDE00] = Inl InvalidCharacterError"
  by (simp add: btoa_def)

section \<open>The source-map link: round trip and totality\<close>

text \<open>
  C5. When the compiled text, the debug map and the source text contain only ASCII
  characters, the link is built, and splitting its payload at the commas and
  base64-decoding the three parts gives back exactly the compiled text, the debug map
  and the source text, in this order.
\<close>

theorem sourceMapUrl_roundtrip_ascii:
  "is_ascii lua_text \<Longrightarrow> is_ascii sourceMap_text \<Longrightarrow> is_ascii source_text \<Longrightarrow>
   \<exists>url. sourceMapUrl lua_text sourceMap_text source_text = Inr url \<and>
         decode_payloads url = Some [lua_text, sourceMap_text, source_text]"
  using decode_payloads_url[of lua_text sourceMap_text source_text]
  by (simp add: sourceMapUrl_eq replace_ascii_id)

theorem sourceMapUrl_roundtrip_ascii_witness:
  "is_ascii (js ''print(1)'') \<and> is_ascii [] \<and> is_ascii (js ''print(1);'') \<and>
   (\<exists>url. sourceMapUrl (js ''print(1)'') [] (js ''print(1);'') = Inr url \<and>
          decode_payloads url = Some [js ''print(1)'', [], js ''print(1);''])"
proof -
  have a: "is_ascii (js ''print(1)'')" "is_ascii []" "is_ascii (js ''print(1);'')"
    by (simp_all add: is_ascii_def js_def)
  show ?thesis
    using a sourceMapUrl_roundtrip_ascii[OF a] by simp
qed

text \<open>
  C6, as stated, fails on the range: a line feed is outside the basic printable range,
  yet it is not replaced by \<open>?\<close>. The pattern of the source is \<open>[^\x00-\x7F]\<close>, all
  of ASCII, so the link of a text that is one line feed carries the line feed itself.
\<close>

theorem control_character_kept_counterexample:
  "\<not> is_basic_printable 0x0A \<and>
   replace_non_ascii [0x0A] = [0x0A] \<and>
   sourceMapUrl [0x0A] [] [] = Inr (url_prefix @ js ''Cg==,,'') \<and>
   decode_payloads (url_prefix @ js ''Cg==,,'') = Some [[0x0A], [], []]"
proof -
  have u: "sourceMapUrl [0x0A] [] [] = Inr (url_prefix @ js ''Cg==,,'')"
    by (simp add: sourceMapUrl_def btoa_def replace_non_ascii_def js_def echar_def
        b64units_def b64chars_def pad_def)
  have r: "replace_non_ascii [0x0A] = [0x0A]"
    by (simp add: replace_non_ascii_def)
  from sourceMapUrl_eq[of "[0x0A]" "[]" "[]"] u
  have "url_prefix @ js ''Cg==,,'' =
      url_prefix @ encode (map unat (replace_non_ascii [0x0A])) @ [0x2C] @
        encode (map unat (replace_non_ascii [])) @ [0x2C] @
        encode (map unat (replace_non_ascii []))"
    by simp
  with sourceMapUrl_decodes[of "[0x0A]" "[]" "[]"] r
  have d: "decode_payloads (url_prefix @ js ''Cg==,,'') = Some [[0x0A], [], []]"
    by (simp add: replace_non_ascii_def)
  show ?thesis
    using u r d by (simp add: is_basic_printable_def)
qed

text \<open>
  C6, amended. Building the link never fails, whatever the three texts are, emoji
  included. In each of the three texts every UTF-16 code unit above \<open>0x7F\<close> is first
  replaced by \<open>?\<close> (an emoji, two code units, becomes two) and every code unit from
  \<open>0x00\<close> to \<open>0x7F\<close>, control characters included, is kept. \<open>btoa\<close> succeeds on each
  text after the replacement, the link is the prefix followed by these three encodings
  joined by commas, and its payloads decode to the three texts after the replacement.
\<close>

theorem sourceMapUrl_never_fails:
  "(\<exists>b1 b2 b3.
      btoa (replace_non_ascii lua_text) = Inr b1 \<and>
      btoa (replace_non_ascii sourceMap_text) = Inr b2 \<and>
      btoa (replace_non_ascii source_text) = Inr b3 \<and>
      sourceMapUrl lua_text sourceMap_text source_text =
        Inr (url_prefix @ b1 @ [0x2C] @ b2 @ [0x2C] @ b3) \<and>
      decode_payloads (url_prefix @ b1 @ [0x2C] @ b2 @ [0x2C] @ b3) =
        Some (map replace_non_ascii [lua_text, sourceMap_text, source_text])) \<and>
   (\<forall>x\<in>set [lua_text, sourceMap_text, source_text].
      length (replace_non_ascii x) = length x \<and>
      (\<forall>i<length x. replace_non_ascii x ! i = (if x ! i \<le> 0x7F then x ! i else 0x3F)))"
proof -
  let ?e = "\<lambda>x. encode (map unat (replace_non_ascii x))"
  have b: "btoa (replace_non_ascii x) = Inr (?e x)" for x
    by (simp add: btoa_ascii is_ascii_replace)
  have u: "sourceMapUrl lua_text sourceMap_text source_text =
      Inr (url_prefix @ ?e lua_text @ [0x2C] @ ?e sourceMap_text @ [0x2C] @ ?e source_text)"
    by (rule sourceMapUrl_eq)
  have d: "decode_payloads
      (url_prefix @ ?e lua_text @ [0x2C] @ ?e sourceMap_text @ [0x2C] @ ?e source_text) =
      Some (map replace_non_ascii [lua_text, sourceMap_text, source_text])"
    using sourceMapUrl_decodes[of lua_text sourceMap_text source_text] by simp
  have r: "length (replace_non_ascii x) = length x \<and>
      (\<forall>i<length x. replace_non_ascii x ! i = (if x ! i \<le> 0x7F then x ! i else 0x3F))" for x
    by (simp add: replace_non_ascii_def)
  from b u d have "\<exists>b1 b2 b3.
      btoa (replace_non_ascii lua_text) = Inr b1 \<and>
      btoa (replace_non_ascii sourceMap_text) = Inr b2 \<and>
      btoa (replace_non_ascii source_text) = Inr b3 \<and>
      sourceMapUrl lua_text sourceMap_text source_text =
        Inr (url_prefix @ b1 @ [0x2C] @ b2 @ [0x2C] @ b3) \<and>
      decode_payloads (url_prefix @ b1 @ [0x2C] @ b2 @ [0x2C] @ b3) =
        Some (map replace_non_ascii [lua_text, sourceMap_text, source_text])"
    by blast
  with r show ?thesis by blast
qed

theorem sourceMapUrl_never_fails_witness:
  "btoa [0xD83D, 0xDE00] = Inl InvalidCharacterError \<and>
   (\<exists>url. sourceMapUrl (js ''x'') [] [0xD83D, 0xDE00] = Inr url \<and>
          decode_payloads url = Some [js ''x'', [], js ''??'']) \<and>
   [0xD83D, 0xDE00 :: 16 word] \<in> set [js ''x'', [], [0xD83D, 0xDE00]] \<and>
   (0::nat) < length [0xD83D, 0xDE00 :: 16 word] \<and>
   replace_non_ascii [0xD83D, 0xDE00] ! 0 = 0x3F \<and>
   length (replace_non_ascii [0xD83D, 0xDE00]) = 2"
proof -
  from sourceMapUrl_never_fails[of "js ''x''" "[]" "[0xD83D, 0xDE00]"]
  obtain b1 b2 b3 where
    u: "sourceMapUrl (js ''x'') [] [0xD83D, 0xDE00] =
          Inr (url_prefix @ b1 @ [0x2C] @ b2 @ [0x2C] @ b3)"
    and d: "decode_payloads (url_prefix @ b1 @ [0x2C] @ b2 @ [0x2C] @ b3) =
          Some (map replace_non_ascii [js ''x'', [], [0xD83D, 0xDE00]])"
    and r: "\<forall>x\<in>set [js ''x'', [], [0xD83D, 0xDE00]].
          length (replace_non_ascii x) = length x \<and>
          (\<forall>i<length x. replace_non_ascii x ! i = (if x ! i \<le> 0x7F then x ! i else 0x3F))"
    by blast
  have m: "map replace_non_ascii [js ''x'', [], [0xD83D, 0xDE00]] = [js ''x'', [], js ''??'']"
    by (simp add: replace_non_ascii_def js_def)
  from r have r': "length (replace_non_ascii [0xD83D, 0xDE00]) = 2 \<and>
      replace_non_ascii [0xD83D, 0xDE00] ! 0 = 0x3F"
    by simp
  have e: "btoa [0xD83D, 0xDE00] = Inl InvalidCharacterError"
    by (simp add: btoa_def)
  from u d m have "\<exists>url. sourceMapUrl (js ''x'') [] [0xD83D, 0xDE00] = Inr url \<and>
      decode_payloads url = Some [js ''x'', [], js ''??'']"
    by simp
  with r' e show ?thesis by simp
qed

section \<open>Facts about console rows\<close>

lemma map_throwing_Inr:
  "map_throwing f xs = Inr ys \<Longrightarrow>
   length ys = length xs \<and> (\<forall>i<length xs. f (xs ! i) = Inr (ys ! i))"
proof (induction xs arbitrary: ys)
  case Nil
  then show ?case by simp
next
  case (Cons x xs)
  then obtain y ys' where y: "f x = Inr y" and ys': "map_throwing f xs = Inr ys'"
    and eq: "ys = y # ys'"
    by (auto split: sum.splits)
  from Cons.IH[OF ys'] have "length ys' = length xs"
    and "\<forall>i<length xs. f (xs ! i) = Inr (ys' ! i)" by simp_all
  then show ?case using y eq by (auto simp: nth_Cons split: nat.splits)
qed





section \<open>The console rows\<close>



text \<open>
  C8. A console row gets the error class exactly when the method of its message is
  \<open>"error"\<close>: then its class is the row class, a space and the error class; for any
  other method it is the row class alone. This holds for each row that \<open>LuaOutput\<close>
  renders from a list of messages.
\<close>
theorem consoleOutputRowClass_error_iff:
  "(consoleOutputRowClass st m =
      luaOutputTerminalRow st @ '' '' @ luaOutputTerminalError st)
     = (message_method m = ''error'') \<and>
   (message_method m \<noteq> ''error'' \<longrightarrow> consoleOutputRowClass st m = luaOutputTerminalRow st) \<and>
   (LuaOutput st toString rs = Inr rows \<longrightarrow>
      length rows = length rs \<and>
      (\<forall>i<length rs. fst (rows ! i) = consoleOutputRowClass st (rs ! i)))"
proof -
  have "(consoleOutputRowClass st m =
      luaOutputTerminalRow st @ '' '' @ luaOutputTerminalError st)
     = (message_method m = ''error'')"
    by (simp add: consoleOutputRowClass_def Let_def)
  moreover have "message_method m \<noteq> ''error'' \<longrightarrow>
      consoleOutputRowClass st m = luaOutputTerminalRow st"
    by (simp add: consoleOutputRowClass_def Let_def)
  moreover have "LuaOutput st toString rs = Inr rows \<longrightarrow>
      length rows = length rs \<and>
      (\<forall>i<length rs. fst (rows ! i) = consoleOutputRowClass st (rs ! i))"
  proof
    assume "LuaOutput st toString rs = Inr rows"
    from map_throwing_Inr[OF this[unfolded LuaOutput_def]]
    have len: "length rows = length rs"
      and row: "\<forall>i<length rs.
        (case row_text toString (rs ! i) of
           Inl e \<Rightarrow> Inl e
         | Inr txt \<Rightarrow> Inr (consoleOutputRowClass st (rs ! i), txt)) = Inr (rows ! i)"
      by simp_all
    have "fst (rows ! i) = consoleOutputRowClass st (rs ! i)" if "i < length rs" for i
    proof -
      from row that have
        "(case row_text toString (rs ! i) of
            Inl e \<Rightarrow> Inl e
          | Inr txt \<Rightarrow> Inr (consoleOutputRowClass st (rs ! i), txt)) = Inr (rows ! i)"
        by blast
      then show ?thesis
        by (cases "row_text toString (rs ! i)") (auto dest: arg_cong[where f = fst])
    qed
    with len show "length rows = length rs \<and>
      (\<forall>i<length rs. fst (rows ! i) = consoleOutputRowClass st (rs ! i))"
      by simp
  qed
  ultimately show ?thesis by blast
qed

theorem consoleOutputRowClass_error_iff_witness:
  "consoleOutputRowClass \<lparr>luaOutputTerminalRow = ''row'', luaOutputTerminalError = ''err''\<rparr>
     \<lparr>message_method = ''error'', data = [Value (1::nat)]\<rparr> = ''row err'' \<and>
   ''log'' \<noteq> ''error'' \<and>
   consoleOutputRowClass \<lparr>luaOutputTerminalRow = ''row'', luaOutputTerminalError = ''err''\<rparr>
     \<lparr>message_method = ''log'', data = [Value (1::nat)]\<rparr> = ''row'' \<and>
   LuaOutput \<lparr>luaOutputTerminalRow = ''row'', luaOutputTerminalError = ''err''\<rparr>
     (\<lambda>n::nat. Inr (Value ''1''))
     [\<lparr>message_method = ''log'', data = [Value 1]\<rparr>,
      \<lparr>message_method = ''error'', data = [Value 1, Null]\<rparr>]
   = Inr [(''row'', ''1''), (''row err'', [CHR ''1'', CHR 0x09])]"
  using consoleOutputRowClass_error_iff[of
      "\<lparr>luaOutputTerminalRow = ''row'', luaOutputTerminalError = ''err''\<rparr>"
      "\<lparr>message_method = ''error'', data = [Value (1::nat)]\<rparr>"
      "\<lambda>n::nat. Inr (Value ''1'')" "[]" "[]"]
    consoleOutputRowClass_error_iff[of
      "\<lparr>luaOutputTerminalRow = ''row'', luaOutputTerminalError = ''err''\<rparr>"
      "\<lparr>message_method = ''log'', data = [Value (1::nat)]\<rparr>"
      "\<lambda>n::nat. Inr (Value ''1'')" "[]" "[]"]
  by (simp add: LuaOutput_def row_text_def formatLuaOutputData_def consoleOutputRowClass_def)


section \<open>Facts about the transition system\<close>

lemma advance_frame:
  "panel (advance t w) = panel w" "editor (advance t w) = editor w"
  "commits (advance t w) = commits w" "modelText (advance t w) = modelText w"
  "myEditor (advance t w) = myEditor w" "myWorker (advance t w) = myWorker w"
  by (simp_all add: advance_def onChange_callback_def updateModel_def split: option.splits)

lemma tasks_advance:
  "tasks (advance t w) =
     tasks w @ (case debounce_due t (timer w) of
                  None \<Rightarrow> []
                | Some v \<Rightarrow> if myWorker w \<and> myEditor w then [AwaitTranspile] else [])"
  by (simp add: advance_def onChange_callback_def updateModel_def split: option.splits)

lemma tasks_advance_nth:
  "i < length (tasks w) \<Longrightarrow> i < length (tasks (advance t w)) \<and> tasks (advance t w) ! i = tasks w ! i"
  by (simp add: tasks_advance nth_append)

lemma cycle_commits_frame:
  "commits w' = commits w \<Longrightarrow> cycle_commits i w' = cycle_commits i w"
  by (simp add: cycle_commits_def)

lemma cycle_commits_setState:
  "commits w' = commits w @ [(i, s)] \<Longrightarrow>
   cycle_commits j w' = cycle_commits j w @ (if j = i then [s] else [])"
  by (simp add: cycle_commits_def)

lemma cycle_commits_fresh:
  "\<forall>c\<in>set (commits w). fst c < n \<Longrightarrow> cycle_commits n w = []"
  by (auto simp: cycle_commits_def filter_empty_conv)

lemma consistent_updateModel:
  assumes "consistent s0 w"
  shows "consistent s0 (updateModel w)"
proof -
  have c: "commits (updateModel w) = commits w" and e: "editor (updateModel w) = editor w"
    and t: "tasks (updateModel w) = tasks w @ [AwaitTranspile]"
    by (simp_all add: updateModel_def)
  from assms have a1: "\<forall>c\<in>set (commits w). fst c < length (tasks w)"
    and a2: "\<forall>i<length (tasks w). phase_ok (tasks w ! i) (cycle_commits i w)"
    and a3: "editor w = (if commits w = [] then s0 else snd (last (commits w)))"
    by (simp_all add: consistent_def)
  have "phase_ok (tasks (updateModel w) ! i) (cycle_commits i (updateModel w))"
    if "i < length (tasks (updateModel w))" for i
  proof (cases "i < length (tasks w)")
    case True
    then show ?thesis using a2 by (simp add: t nth_append cycle_commits_frame[OF c])
  next
    case False
    with that have "i = length (tasks w)" by (simp add: t)
    then show ?thesis
      using cycle_commits_fresh[OF a1] by (simp add: t cycle_commits_frame[OF c])
  qed
  moreover have "\<forall>c\<in>set (commits (updateModel w)). fst c < length (tasks (updateModel w))"
    using a1 by (auto simp: c t)
  ultimately show ?thesis
    using a3 by (simp add: consistent_def c e)
qed

lemma consistent_advance: "consistent s0 w \<Longrightarrow> consistent s0 (advance t w)"
proof -
  assume a: "consistent s0 w"
  have b: "consistent s0 (w\<lparr>timer := None, codeHistory := h\<rparr>)" for h
    using a by (simp add: consistent_def cycle_commits_def)
  have b': "consistent s0 (w\<lparr>timer := None\<rparr>)"
    using a by (simp add: consistent_def cycle_commits_def)
  show ?thesis
    using a b b' consistent_updateModel[OF b]
    by (simp add: advance_def onChange_callback_def split: option.splits)
qed

lemma consistent_commit:
  assumes a: "consistent s0 w" and i: "i < length (tasks w)"
    and c: "commits w' = commits w @ [(i, s)]" and e: "editor w' = s"
    and t: "tasks w' = (tasks w)[i := p]"
    and p: "phase_ok p (cycle_commits i w @ [s])"
  shows "consistent s0 w'"
proof -
  from a have a1: "\<forall>c\<in>set (commits w). fst c < length (tasks w)"
    and a2: "\<forall>j<length (tasks w). phase_ok (tasks w ! j) (cycle_commits j w)"
    by (simp_all add: consistent_def)
  have "phase_ok (tasks w' ! j) (cycle_commits j w')" if "j < length (tasks w')" for j
  proof (cases "j = i")
    case True
    then show ?thesis using p i by (simp add: t cycle_commits_setState[OF c])
  next
    case False
    then show ?thesis using a2 that by (simp add: t cycle_commits_setState[OF c])
  qed
  moreover have "\<forall>c\<in>set (commits w'). fst c < length (tasks w')"
    using a1 i by (auto simp: c t)
  ultimately show ?thesis
    by (simp add: consistent_def c e)
qed

lemma consistent_reject:
  assumes a: "consistent s0 w" and i: "i < length (tasks w)"
    and c: "commits w' = commits w" and e: "editor w' = editor w"
    and t: "tasks w' = (tasks w)[i := Rejected]"
    and p: "length (cycle_commits i w) \<le> 1"
  shows "consistent s0 w'"
proof -
  from a have a1: "\<forall>c\<in>set (commits w). fst c < length (tasks w)"
    and a2: "\<forall>j<length (tasks w). phase_ok (tasks w ! j) (cycle_commits j w)"
    and a3: "editor w = (if commits w = [] then s0 else snd (last (commits w)))"
    by (simp_all add: consistent_def)
  have "phase_ok (tasks w' ! j) (cycle_commits j w')" if "j < length (tasks w')" for j
  proof (cases "j = i")
    case True
    then show ?thesis using p i by (simp add: t cycle_commits_frame[OF c])
  next
    case False
    then show ?thesis using a2 that by (simp add: t cycle_commits_frame[OF c])
  qed
  moreover have "\<forall>c\<in>set (commits w'). fst c < length (tasks w')"
    using a1 by (auto simp: c t)
  ultimately show ?thesis
    using a3 by (simp add: consistent_def c e)
qed

lemma consistent_phase:
  "consistent s0 w \<Longrightarrow> i < length (tasks w) \<Longrightarrow> phase_ok (tasks w ! i) (cycle_commits i w)"
  by (simp add: consistent_def)

lemma consistent_transpile_settled:
  assumes a: "consistent s0 w"
  shows "consistent s0 (transpile_settled i r w)"
proof (cases "i < length (tasks w) \<and> tasks w ! i = AwaitTranspile")
  case False
  then show ?thesis using a by (auto simp: transpile_settled_def)
next
  case True
  then have i: "i < length (tasks w)" and ph: "tasks w ! i = AwaitTranspile" by simp_all
  from consistent_phase[OF a i] ph have cc: "cycle_commits i w = []" by simp
  show ?thesis
  proof (cases r)
    case (Inl err)
    show ?thesis
      by (rule consistent_reject[OF a i]) (simp_all add: transpile_settled_def True Inl cc)
  next
    case (Inr out)
    show ?thesis
      by (rule consistent_commit[OF a i, where
            s = "\<lparr>source = modelText w, lua = out_lua out, sourceMap = out_sourceMap out,
                  ast = out_ast out, results = []\<rparr>" and
            p = "AwaitExecute (modelText w) (out_lua out) (out_ast out) (out_sourceMap out)"])
        (simp_all add: transpile_settled_def setState_def True Inr cc)
  qed
qed

lemma consistent_execute_settled:
  assumes a: "consistent s0 w"
  shows "consistent s0 (execute_settled i r w)"
proof (cases "i < length (tasks w)")
  case False
  then show ?thesis using a by (simp add: execute_settled_def)
next
  case i: True
  show ?thesis
  proof (cases "tasks w ! i")
    case (AwaitExecute src l a' sm)
    from consistent_phase[OF a i] AwaitExecute
    have cc: "cycle_commits i w =
        [\<lparr>source = src, lua = l, sourceMap = sm, ast = a', results = []\<rparr>]" by simp
    show ?thesis
    proof (cases r)
      case (Inl err)
      show ?thesis
        by (rule consistent_reject[OF a i])
          (simp_all add: execute_settled_def i AwaitExecute Inl cc)
    next
      case (Inr rs)
      show ?thesis
        by (rule consistent_commit[OF a i, where
              s = "\<lparr>source = src, lua = l, sourceMap = sm, ast = a', results = rs\<rparr>" and
              p = Finished])
          (simp_all add: execute_settled_def setState_def i AwaitExecute Inr cc)
    qed
  qed (use a i in \<open>simp_all add: execute_settled_def\<close>)
qed

lemma consistent_handle: "consistent s0 w \<Longrightarrow> consistent s0 (handle t e w)"
proof (cases e)
  case WorkerReady
  assume a: "consistent s0 w"
  have "consistent s0 (w\<lparr>myWorker := True\<rparr>)"
    using a by (simp add: consistent_def cycle_commits_def)
  from consistent_updateModel[OF this] a show ?thesis
    by (simp add: WorkerReady)
qed (simp_all add: consistent_transpile_settled consistent_execute_settled,
     simp_all add: consistent_def cycle_commits_def)

lemma consistent_step: "consistent s0 w \<Longrightarrow> consistent s0 (step w te)"
  by (simp add: step_def consistent_handle consistent_advance)

lemma consistent_run: "consistent s0 w \<Longrightarrow> consistent s0 (run w es)"
  unfolding run_def by (induction es arbitrary: w) (simp_all add: consistent_step)

lemma consistent_init: "consistent (EditorState0 e) (init_world c e)"
  by (simp add: consistent_def init_world_def)

lemma run_snoc: "run w (es @ [te]) = step (run w es) te"
  by (simp add: run_def)

lemma step_transpile_commit:
  assumes "i < length (tasks w)" "tasks w ! i = AwaitTranspile"
  shows "editor (step w (t, TranspileSettled i (Inr out))) =
           \<lparr>source = modelText w, lua = out_lua out, sourceMap = out_sourceMap out,
            ast = out_ast out, results = []\<rparr>"
    and "commits (step w (t, TranspileSettled i (Inr out))) =
           commits w @ [(i, \<lparr>source = modelText w, lua = out_lua out,
                            sourceMap = out_sourceMap out, ast = out_ast out, results = []\<rparr>)]"
    and "tasks (step w (t, TranspileSettled i (Inr out))) ! i =
           AwaitExecute (modelText w) (out_lua out) (out_ast out) (out_sourceMap out)"
  using tasks_advance_nth[OF assms(1), of t] assms(2)
  by (simp_all add: step_def transpile_settled_def setState_def advance_frame)

lemma step_execute_commit:
  assumes "i < length (tasks w)" "tasks w ! i = AwaitExecute src l a sm"
  shows "editor (step w (t, ExecuteSettled i (Inr rs))) =
           \<lparr>source = src, lua = l, sourceMap = sm, ast = a, results = rs\<rparr>"
    and "commits (step w (t, ExecuteSettled i (Inr rs))) =
           commits w @ [(i, \<lparr>source = src, lua = l, sourceMap = sm, ast = a, results = rs\<rparr>)]"
    and "tasks (step w (t, ExecuteSettled i (Inr rs))) ! i = Finished"
  using tasks_advance_nth[OF assms(1), of t] assms(2)
  by (simp_all add: step_def execute_settled_def setState_def advance_frame)

lemma length_tasks_handle:
  "length (tasks (handle t e w)) =
     length (tasks w) + (if e = WorkerReady \<and> myEditor w \<and> \<not> myWorker w then 1 else 0)"
  by (cases e)
    (auto simp: updateModel_def transpile_settled_def execute_settled_def setState_def
      split: sum.splits task.splits)

lemma tasks_handle_nth:
  assumes "j < length (tasks w)" "tasks (handle t e w) ! j \<noteq> tasks w ! j"
  shows "(\<exists>r. e = TranspileSettled j r) \<or> (\<exists>r. e = ExecuteSettled j r)"
  using assms
  by (cases e)
    (auto simp: updateModel_def transpile_settled_def execute_settled_def setState_def
      nth_append nth_list_update split: sum.splits task.splits if_splits)

lemma step_other_tasks:
  assumes "j < length (tasks w)" "tasks (step w (t, e)) ! j \<noteq> tasks w ! j"
  shows "(\<exists>r. e = TranspileSettled j r) \<or> (\<exists>r. e = ExecuteSettled j r)"
proof -
  from tasks_advance_nth[OF assms(1), of t]
  have "j < length (tasks (advance t w))" "tasks (advance t w) ! j = tasks w ! j" by simp_all
  with assms(2) tasks_handle_nth[of j "advance t w" t e] show ?thesis
    by (simp add: step_def)
qed

lemma length_tasks_step: "length (tasks w) \<le> length (tasks (step w (t, e)))"
  by (simp add: step_def length_tasks_handle tasks_advance)

lemma new_cycle_cause:
  assumes "length (tasks (step w (t, e))) \<noteq> length (tasks w)"
  shows "e = WorkerReady \<or> debounce_due t (timer w) \<noteq> None"
  using assms
  by (auto simp: step_def length_tasks_handle tasks_advance split: option.splits if_splits)

lemma panel_handle: "panel (handle t e w) \<noteq> panel w \<Longrightarrow> \<exists>k. e = SetActivePanel k"
  by (cases e)
    (auto simp: updateModel_def transpile_settled_def execute_settled_def setState_def
      split: sum.splits task.splits if_splits)

lemma panel_step: "panel (step w (t, e)) \<noteq> panel w \<Longrightarrow> \<exists>k. e = SetActivePanel k"
  using panel_handle[of t e "advance t w"] by (simp add: step_def advance_frame)

lemma panel_run_no_switch:
  "list_all (\<lambda>te. \<not> is_panel_switch (snd te)) es \<Longrightarrow> panel (run w es) = panel w"
proof (induction es rule: rev_induct)
  case Nil
  then show ?case by (simp add: run_def)
next
  case (snoc te es)
  then have IH: "panel (run w es) = panel w" and ns: "\<not> is_panel_switch (snd te)" by simp_all
  have "panel (step (run w es) (fst te, snd te)) = panel (run w es)"
  proof (rule ccontr)
    assume "panel (step (run w es) (fst te, snd te)) \<noteq> panel (run w es)"
    from panel_step[OF this] ns show False by auto
  qed
  then show ?case using IH by (simp add: run_snoc)
qed

lemma timer_cause:
  assumes "timer (step w (t, e)) \<noteq> None" "timer (step w (t, e)) \<noteq> timer w"
  shows "\<exists>v. e = Change v"
  using assms
  by (cases e)
    (auto simp: step_def advance_def onChange_callback_def updateModel_def debounce_due_def
      transpile_settled_def execute_settled_def setState_def
      split: sum.splits task.splits if_splits option.splits)

lemma step_change_quiet:
  "debounce_due t (timer w) = None \<Longrightarrow>
   step w (t, Change v) = w\<lparr>modelText := v, timer := Some (t + quiet_period, v)\<rparr>"
  by (simp add: step_def advance_def debounce_call_def)

lemma burst_run:
  "cs \<noteq> [] \<Longrightarrow> burst quiet_period cs \<Longrightarrow> debounce_due (fst (hd cs)) (timer w) = None \<Longrightarrow>
   run w (changes cs) =
     w\<lparr>modelText := snd (last cs), timer := Some (fst (last cs) + quiet_period, snd (last cs))\<rparr>"
proof (induction cs arbitrary: w)
  case Nil
  then show ?case by simp
next
  case (Cons c cs)
  let ?w1 = "w\<lparr>modelText := snd c, timer := Some (fst c + quiet_period, snd c)\<rparr>"
  have s1: "step w (fst c, Change (snd c)) = ?w1"
    using Cons.prems(3) by (simp add: step_change_quiet)
  show ?case
  proof (cases cs)
    case Nil
    then show ?thesis using s1 by (simp add: run_def changes_def)
  next
    case (Cons d ds)
    with Cons.prems(2) have b: "burst quiet_period cs" and lt: "fst d < fst c + quiet_period"
      by simp_all
    have q: "debounce_due (fst (hd cs)) (timer ?w1) = None"
      using lt Cons by (simp add: debounce_due_def)
    have "run w (changes (c # cs)) = run ?w1 (changes cs)"
      using s1 by (simp add: run_def changes_def)
    also have "\<dots> = ?w1\<lparr>modelText := snd (last cs),
        timer := Some (fst (last cs) + quiet_period, snd (last cs))\<rparr>"
      using Cons.IH[OF _ b q] Cons by simp
    finally show ?thesis using Cons by simp
  qed
qed

lemma idle_after_burst:
  assumes "timer w' = Some (d, v)" 
  shows "T < d \<Longrightarrow> step w' (T, Idle) = w'"
    and "d \<le> T \<Longrightarrow> tasks (step w' (T, Idle)) =
           tasks w' @ (if myWorker w' \<and> myEditor w' then [AwaitTranspile] else [])"
    and "d \<le> T \<Longrightarrow> timer (step w' (T, Idle)) = None"
  using assms
  by (simp_all add: step_def advance_def debounce_due_def onChange_callback_def updateModel_def)

lemma editor_handle_cause:
  assumes "editor (handle t e w) \<noteq> editor w"
  shows "\<exists>k. ((\<exists>r. e = TranspileSettled k r) \<or> (\<exists>r. e = ExecuteSettled k r)) \<and>
             last (commits (handle t e w)) = (k, editor (handle t e w))"
  using assms
  by (cases e)
    (auto simp: updateModel_def transpile_settled_def execute_settled_def setState_def
      split: sum.splits task.splits if_splits)

lemma editor_step_cause:
  assumes "editor (step w (t, e)) \<noteq> editor w"
  shows "\<exists>k. ((\<exists>r. e = TranspileSettled k r) \<or> (\<exists>r. e = ExecuteSettled k r)) \<and>
             last (commits (step w (t, e))) = (k, editor (step w (t, e)))"
  using assms editor_handle_cause[of t e "advance t w"]
  by (simp add: step_def advance_frame)

section \<open>Evaluating the scenarios\<close>

lemmas world_defs = run_def step_def advance_def debounce_due_def debounce_call_def
  init_world_def updateModel_def transpile_settled_def execute_settled_def setState_def
  onChange_callback_def PanelState0_def EditorState0_def quiet_period_def

lemma mounted_run:
  "run (init_world (js ''old'') ()) mounted =
     \<lparr>panel = \<lparr>activePanel = Input\<rparr>, editor = EditorState0 (), tasks = [AwaitTranspile],
      commits = [], modelText = js ''old'', myEditor = True, myWorker = True, timer = None,
      codeHistory = []\<rparr>"
  by (simp add: mounted_def world_defs)

lemma late_landing_run:
  "map fst (commits (run (init_world (js ''old'') ()) late_landing)) = [0, 1, 1, 0] \<and>
   editor (run (init_world (js ''old'') ()) late_landing) =
     \<lparr>source = js ''new'', lua = js ''lua0'', sourceMap = js ''map0'', ast = (),
      results = [\<lparr>message_method = ''log'', data = [Value 0]\<rparr>]\<rparr> \<and>
   tasks (run (init_world (js ''old'') ()) late_landing) = [Finished, Finished]"
  by (simp add: late_landing_def world_defs)

section \<open>The compile-and-run cycle\<close>

text \<open>
  C1. An invocation of \<open>updateModel\<close> replaces the editor state in exactly two steps.
  When the transpiler has answered, the whole state becomes the current text of the
  model, the compiled text, the debug map, the syntax tree and an empty list of console
  messages. When the executor has answered, the whole state becomes the same four values
  with the console messages of the execution. In every run of the page, the \<open>setState\<close>
  calls of a cycle are none while it waits for the transpiler, that one call while it
  waits for the executor, and those two calls once it has finished.
\<close>

theorem updateModel_two_replacements:
  "(i < length (tasks w) \<and> tasks w ! i = AwaitTranspile \<longrightarrow>
      editor (step w (t, TranspileSettled i (Inr out))) =
        \<lparr>source = modelText w, lua = out_lua out, sourceMap = out_sourceMap out,
         ast = out_ast out, results = []\<rparr> \<and>
      tasks (step w (t, TranspileSettled i (Inr out))) ! i =
        AwaitExecute (modelText w) (out_lua out) (out_ast out) (out_sourceMap out)) \<and>
   (i < length (tasks w) \<and> tasks w ! i = AwaitExecute src l a sm \<longrightarrow>
      editor (step w (t, ExecuteSettled i (Inr rs))) =
        \<lparr>source = src, lua = l, sourceMap = sm, ast = a, results = rs\<rparr> \<and>
      tasks (step w (t, ExecuteSettled i (Inr rs))) ! i = Finished) \<and>
   (\<forall>j<length (tasks (run (init_world c e) es)).
      phase_ok (tasks (run (init_world c e) es) ! j)
        (cycle_commits j (run (init_world c e) es)))"
proof -
  have "consistent (EditorState0 e) (run (init_world c e) es)"
    by (rule consistent_run[OF consistent_init])
  then have "\<forall>j<length (tasks (run (init_world c e) es)).
      phase_ok (tasks (run (init_world c e) es) ! j)
        (cycle_commits j (run (init_world c e) es))"
    by (simp add: consistent_def)
  then show ?thesis
    by (simp add: step_transpile_commit step_execute_commit)
qed

theorem updateModel_two_replacements_witness:
  "0 < length (tasks (run (init_world (js ''old'') ()) mounted)) \<and>
   tasks (run (init_world (js ''old'') ()) mounted) ! 0 = AwaitTranspile \<and>
   editor (step (run (init_world (js ''old'') ()) mounted)
       (5, TranspileSettled 0 (Inr (TranspileOutput (js ''lua0'') () (js ''map0''))))) =
     \<lparr>source = js ''old'', lua = js ''lua0'', sourceMap = js ''map0'', ast = (),
      results = []\<rparr> \<and>
   tasks (run (init_world (js ''old'') ()) (take 7 late_landing)) ! 0 =
     AwaitExecute (js ''new'') (js ''lua0'') () (js ''map0'') \<and>
   editor (step (run (init_world (js ''old'') ()) (take 7 late_landing))
       (430, ExecuteSettled 0 (Inr [\<lparr>message_method = ''log'', data = [Value 0]\<rparr>]))) =
     \<lparr>source = js ''new'', lua = js ''lua0'', sourceMap = js ''map0'', ast = (),
      results = [\<lparr>message_method = ''log'', data = [Value 0]\<rparr>]\<rparr> \<and>
   tasks (run (init_world (js ''old'') ()) late_landing) ! 0 = Finished \<and>
   cycle_commits 0 (run (init_world (js ''old'') ()) late_landing) =
     [\<lparr>source = js ''new'', lua = js ''lua0'', sourceMap = js ''map0'', ast = (),
       results = []\<rparr>,
      \<lparr>source = js ''new'', lua = js ''lua0'', sourceMap = js ''map0'', ast = (),
       results = [\<lparr>message_method = ''log'', data = [Value 0]\<rparr>]\<rparr>]"
  using updateModel_two_replacements[of 0 "run (init_world (js ''old'') ()) mounted" 5
      "TranspileOutput (js ''lua0'') () (js ''map0'')" "[]" "[]" "()" "[]" "[]"
      "js ''old''" "()" late_landing]
    updateModel_two_replacements[of 0 "run (init_world (js ''old'') ()) (take 7 late_landing)"
      430 "TranspileOutput (js ''lua0'') () (js ''map0'')" "js ''new''" "js ''lua0''" "()"
      "js ''map0''" "[\<lparr>message_method = ''log'', data = [Value 0]\<rparr>]"
      "js ''old''" "()" late_landing]
  by (simp add: mounted_def cycle_commits_def late_landing_def world_defs)

text \<open>
  C2, as stated, fails when two cycles overlap. In the scenario \<open>late_landing\<close> the
  second \<open>setState\<close> call is the compile commit of the newer cycle 1, and yet at the
  end the visible state holds the compiled text, the debug map and the console messages
  of the older cycle 0, whose executor answered last.
\<close>

theorem late_cycle_shows_stale_counterexample:
  "fst (commits (run (init_world (js ''old'') ()) late_landing) ! 1) = 1 \<and>
   lua (snd (commits (run (init_world (js ''old'') ()) late_landing) ! 1)) = js ''lua1'' \<and>
   results (snd (commits (run (init_world (js ''old'') ()) late_landing) ! 1)) = [] \<and>
   fst (last (commits (run (init_world (js ''old'') ()) late_landing))) = 0 \<and>
   lua (editor (run (init_world (js ''old'') ()) late_landing)) = js ''lua0'' \<and>
   sourceMap (editor (run (init_world (js ''old'') ()) late_landing)) = js ''map0'' \<and>
   results (editor (run (init_world (js ''old'') ()) late_landing)) =
     [\<lparr>message_method = ''log'', data = [Value 0]\<rparr>] \<and>
   js ''lua0'' \<noteq> js ''lua1''"
  by (simp add: late_landing_def world_defs js_def)

text \<open>
  C2, amended. At any time the visible state is the initial state or the argument of the
  latest \<open>setState\<close> call; that call was made by one cycle and is one of the at most
  two calls of this cycle, which agree on source, compiled text, debug map and syntax
  tree. Immediately after the compile phase of a cycle commits, the visible state is the
  commit of this cycle: its compiled text, debug map and syntax tree and an empty console
  list. Afterwards the visible state changes only when the promise awaited by some cycle
  settles, and then it is the commit of that cycle (which may be an older one).
\<close>

theorem one_cycle_visible:
  "editor (run (init_world c e) es) =
     (if commits (run (init_world c e) es) = [] then EditorState0 e
      else snd (last (commits (run (init_world c e) es)))) \<and>
   (commits (run (init_world c e) es) \<noteq> [] \<longrightarrow>
      fst (last (commits (run (init_world c e) es))) < length (tasks (run (init_world c e) es)) \<and>
      editor (run (init_world c e) es) \<in>
        set (cycle_commits (fst (last (commits (run (init_world c e) es))))
               (run (init_world c e) es)) \<and>
      phase_ok
        (tasks (run (init_world c e) es) ! fst (last (commits (run (init_world c e) es))))
        (cycle_commits (fst (last (commits (run (init_world c e) es))))
           (run (init_world c e) es))) \<and>
   (i < length (tasks w) \<and> tasks w ! i = AwaitTranspile \<longrightarrow>
      editor (step w (t, TranspileSettled i (Inr out))) =
        \<lparr>source = modelText w, lua = out_lua out, sourceMap = out_sourceMap out,
         ast = out_ast out, results = []\<rparr> \<and>
      last (commits (step w (t, TranspileSettled i (Inr out)))) =
        (i, editor (step w (t, TranspileSettled i (Inr out))))) \<and>
   (editor (step w (t, ev)) \<noteq> editor w \<longrightarrow>
      (\<exists>k. ((\<exists>r. ev = TranspileSettled k r) \<or> (\<exists>r. ev = ExecuteSettled k r)) \<and>
           last (commits (step w (t, ev))) = (k, editor (step w (t, ev)))))"
proof -
  let ?w = "run (init_world c e) es"
  have k: "consistent (EditorState0 e) ?w"
    by (rule consistent_run[OF consistent_init])
  then have vis: "editor ?w = (if commits ?w = [] then EditorState0 e else snd (last (commits ?w)))"
    by (simp add: consistent_def)
  have one: "fst (last (commits ?w)) < length (tasks ?w) \<and>
      editor ?w \<in> set (cycle_commits (fst (last (commits ?w))) ?w) \<and>
      phase_ok (tasks ?w ! fst (last (commits ?w))) (cycle_commits (fst (last (commits ?w))) ?w)"
    if ne: "commits ?w \<noteq> []"
  proof -
    from ne have mem: "last (commits ?w) \<in> set (commits ?w)" by simp
    with k have lt: "fst (last (commits ?w)) < length (tasks ?w)"
      by (simp add: consistent_def)
    from mem have "snd (last (commits ?w)) \<in> set (cycle_commits (fst (last (commits ?w))) ?w)"
      by (force simp: cycle_commits_def)
    with vis ne lt consistent_phase[OF k lt] show ?thesis by simp
  qed
  show ?thesis
    using vis one editor_step_cause[of w t ev] by (simp add: step_transpile_commit)
qed

theorem one_cycle_visible_witness:
  "commits (run (init_world (js ''old'') ()) late_landing) \<noteq> [] \<and>
   fst (last (commits (run (init_world (js ''old'') ()) late_landing))) = 0 \<and>
   editor (run (init_world (js ''old'') ()) late_landing) \<in>
     set (cycle_commits 0 (run (init_world (js ''old'') ()) late_landing)) \<and>
   0 < length (tasks (run (init_world (js ''old'') ()) mounted)) \<and>
   tasks (run (init_world (js ''old'') ()) mounted) ! 0 = AwaitTranspile \<and>
   editor (step (run (init_world (js ''old'') ()) mounted)
       (5, TranspileSettled 0 (Inr (TranspileOutput (js ''lua0'') () (js ''map0''))))) =
     \<lparr>source = js ''old'', lua = js ''lua0'', sourceMap = js ''map0'', ast = (),
      results = []\<rparr> \<and>
   editor (step (run (init_world (js ''old'') ()) mounted)
       (5, TranspileSettled 0 (Inr (TranspileOutput (js ''lua0'') () (js ''map0''))))) \<noteq>
     editor (run (init_world (js ''old'') ()) mounted) \<and>
   last (commits (step (run (init_world (js ''old'') ()) mounted)
       (5, TranspileSettled 0 (Inr (TranspileOutput (js ''lua0'') () (js ''map0'')))))) =
     (0, \<lparr>source = js ''old'', lua = js ''lua0'', sourceMap = js ''map0'', ast = (),
          results = []\<rparr>)"
  using one_cycle_visible[of "js ''old''" "()" late_landing 0
      "run (init_world (js ''old'') ()) mounted" 5
      "TranspileOutput (js ''lua0'') () (js ''map0'')"
      "TranspileSettled 0 (Inr (TranspileOutput (js ''lua0'') () (js ''map0'')))"]
  by (simp add: mounted_def cycle_commits_def late_landing_def world_defs js_def)

text \<open>
  C3. No cycle is ever cancelled. An event changes the phase of a cycle only if it
  settles the promise this cycle awaits, and cycles are never removed; so starting
  newer cycles leaves an older one as it is. Whatever other cycles exist, a cycle whose
  transpiler answers commits and goes on to execute, and a cycle whose executor answers
  commits and finishes. An older cycle can therefore commit after a newer one: in the
  scenario \<open>late_landing\<close> the commits are made by the cycles 0, 1, 1, 0 in this
  order, and the state at the end is the one of cycle 0.
\<close>

theorem no_cycle_is_cancelled:
  "(j < length (tasks w) \<and> tasks (step w (t, e)) ! j \<noteq> tasks w ! j \<longrightarrow>
      (\<exists>r. e = TranspileSettled j r) \<or> (\<exists>r. e = ExecuteSettled j r)) \<and>
   length (tasks w) \<le> length (tasks (step w (t, e))) \<and>
   (i < length (tasks w) \<and> tasks w ! i = AwaitTranspile \<longrightarrow>
      commits (step w (t, TranspileSettled i (Inr out))) =
        commits w @ [(i, \<lparr>source = modelText w, lua = out_lua out,
                          sourceMap = out_sourceMap out, ast = out_ast out, results = []\<rparr>)] \<and>
      tasks (step w (t, TranspileSettled i (Inr out))) ! i =
        AwaitExecute (modelText w) (out_lua out) (out_ast out) (out_sourceMap out)) \<and>
   (i < length (tasks w) \<and> tasks w ! i = AwaitExecute src l a sm \<longrightarrow>
      commits (step w (t, ExecuteSettled i (Inr rs))) =
        commits w @ [(i, \<lparr>source = src, lua = l, sourceMap = sm, ast = a, results = rs\<rparr>)] \<and>
      editor (step w (t, ExecuteSettled i (Inr rs))) =
        \<lparr>source = src, lua = l, sourceMap = sm, ast = a, results = rs\<rparr> \<and>
      tasks (step w (t, ExecuteSettled i (Inr rs))) ! i = Finished) \<and>
   map fst (commits (run (init_world (js ''old'') ()) late_landing)) = [0, 1, 1, 0] \<and>
   editor (run (init_world (js ''old'') ()) late_landing) =
     \<lparr>source = js ''new'', lua = js ''lua0'', sourceMap = js ''map0'', ast = (),
      results = [\<lparr>message_method = ''log'', data = [Value 0]\<rparr>]\<rparr>"
  using step_other_tasks[of j w t e] length_tasks_step[of w t e] late_landing_run
  by (simp add: step_transpile_commit step_execute_commit)

theorem no_cycle_is_cancelled_witness:
  "1 < length (tasks (run (init_world (js ''old'') ()) (take 4 late_landing))) \<and>
   tasks (run (init_world (js ''old'') ()) (take 4 late_landing)) = [AwaitTranspile, AwaitTranspile] \<and>
   commits (step (run (init_world (js ''old'') ()) (take 4 late_landing))
     (400, TranspileSettled 0 (Inr (TranspileOutput (js ''lua0'') () (js ''map0''))))) =
     [(0, \<lparr>source = js ''new'', lua = js ''lua0'', sourceMap = js ''map0'', ast = (),
          results = []\<rparr>)] \<and>
   tasks (step (run (init_world (js ''old'') ()) (take 4 late_landing))
     (400, TranspileSettled 0 (Inr (TranspileOutput (js ''lua0'') () (js ''map0''))))) =
     [AwaitExecute (js ''new'') (js ''lua0'') () (js ''map0''), AwaitTranspile] \<and>
   tasks (run (init_world (js ''old'') ()) (take 7 late_landing)) =
     [AwaitExecute (js ''new'') (js ''lua0'') () (js ''map0''), Finished] \<and>
   editor (step (run (init_world (js ''old'') ()) (take 7 late_landing))
     (430, ExecuteSettled 0 (Inr [\<lparr>message_method = ''log'', data = [Value 0]\<rparr>]))) =
     \<lparr>source = js ''new'', lua = js ''lua0'', sourceMap = js ''map0'', ast = (),
      results = [\<lparr>message_method = ''log'', data = [Value 0]\<rparr>]\<rparr>"
  using no_cycle_is_cancelled[of 0 "run (init_world (js ''old'') ()) (take 4 late_landing)" 400
      "TranspileSettled 0 (Inr (TranspileOutput (js ''lua0'') () (js ''map0'')))" 0
      "TranspileOutput (js ''lua0'') () (js ''map0'')" "[]" "[]" "()" "[]" "[]"]
    no_cycle_is_cancelled[of 0 "run (init_world (js ''old'') ()) (take 7 late_landing)" 430
      "ExecuteSettled 0 (Inr [\<lparr>message_method = ''log'', data = [Value 0]\<rparr>])" 0
      "TranspileOutput (js ''lua0'') () (js ''map0'')" "js ''new''" "js ''lua0''" "()"
      "js ''map0''" "[\<lparr>message_method = ''log'', data = [Value 0]\<rparr>]"]
  by (simp add: late_landing_def world_defs)

section \<open>The panel state\<close>

text \<open>
  C7. Only \<open>setActivePanel\<close> changes the panel state: an event that changes it is a
  panel switch. A panel switch sets the active panel and leaves the editor state (source,
  compiled text, debug map, syntax tree, console messages) as it is; it makes no
  \<open>setState\<close> call and does not touch the text of the model.
\<close>

theorem setActivePanel_frame:
  "(panel (step w (t, e)) \<noteq> panel w \<longrightarrow> (\<exists>k. e = SetActivePanel k)) \<and>
   panel (step w (t, SetActivePanel k)) = \<lparr>activePanel = k\<rparr> \<and>
   editor (step w (t, SetActivePanel k)) = editor w \<and>
   commits (step w (t, SetActivePanel k)) = commits w \<and>
   modelText (step w (t, SetActivePanel k)) = modelText w"
  using panel_step[of w t e] by (auto simp: step_def advance_frame)

theorem setActivePanel_frame_witness:
  "panel (step (run (init_world (js ''old'') ()) late_landing) (500, SetActivePanel Output)) \<noteq>
     panel (run (init_world (js ''old'') ()) late_landing) \<and>
   panel (step (run (init_world (js ''old'') ()) late_landing) (500, SetActivePanel Output)) =
     \<lparr>activePanel = Output\<rparr> \<and>
   editor (step (run (init_world (js ''old'') ()) late_landing) (500, SetActivePanel Output)) =
     \<lparr>source = js ''new'', lua = js ''lua0'', sourceMap = js ''map0'', ast = (),
      results = [\<lparr>message_method = ''log'', data = [Value 0]\<rparr>]\<rparr>"
  using setActivePanel_frame[of "run (init_world (js ''old'') ()) late_landing" 500
      "SetActivePanel Output" Output]
  by (simp add: late_landing_def world_defs)

text \<open>
  C9. At mount the active panel is the input panel, not the output panel, and it stays
  the input panel as long as no panel switch happens.
\<close>

theorem initial_panel_is_Input:
  "activePanel (panel (init_world c e :: ('ast, 'v) world)) = Input \<and>
   activePanel (panel (init_world c e :: ('ast, 'v) world)) \<noteq> Output \<and>
   (list_all (\<lambda>te. \<not> is_panel_switch (snd te)) es \<longrightarrow>
      activePanel (panel (run (init_world c e :: ('ast, 'v) world) es)) = Input)"
  using panel_run_no_switch[of es "init_world c e"]
  by (auto simp: init_world_def PanelState0_def)

theorem initial_panel_is_Input_witness:
  "list_all (\<lambda>te. \<not> is_panel_switch (snd te)) late_landing \<and>
   activePanel (panel (run (init_world (js ''old'') ()) late_landing)) = Input \<and>
   activePanel (panel (init_world (js ''old'') () :: (unit, nat) world)) = Input"
  using initial_panel_is_Input[of "js ''old''" "()" late_landing]
  by (simp add: late_landing_def)

section \<open>Debounced changes\<close>

text \<open>
  C4, as stated, fails at mount: \<open>onMount\<close> calls \<open>updateModel\<close> itself as soon as
  the worker is available, so a cycle starts although no change was ever notified.
\<close>

theorem mount_starts_cycle_counterexample:
  "tasks (run (init_world (js ''old'') ()) mounted) = [AwaitTranspile] \<and>
   count_changes mounted = 0"
  by (simp add: mounted_def count_changes_def world_defs)

text \<open>
  C4, amended. The quiet period is 250 ms. A cycle starts only when \<open>onMount\<close> resumes
  with the worker or when a countdown of the debounced handler is due, and a countdown
  is only started by a change, 250 ms ahead. For a burst of changes with gaps shorter
  than 250 ms that begins with no countdown due: no cycle starts during the burst; none
  starts before 250 ms have passed since the last change; and once they have passed, at
  most one cycle starts, exactly one if the worker and the editor are known.
\<close>

theorem debounced_cycles:
  "quiet_period = 250 \<and>
   (length (tasks (step w (t, e))) \<noteq> length (tasks w) \<longrightarrow>
      e = WorkerReady \<or> debounce_due t (timer w) \<noteq> None) \<and>
   (timer (step w (t, e)) \<noteq> None \<and> timer (step w (t, e)) \<noteq> timer w \<longrightarrow>
      (\<exists>v. e = Change v)) \<and>
   timer (step w (t, Change v)) = Some (t + quiet_period, v) \<and>
   (cs \<noteq> [] \<and> burst quiet_period cs \<and> debounce_due (fst (hd cs)) (timer w) = None \<longrightarrow>
      tasks (run w (changes cs)) = tasks w \<and>
      timer (run w (changes cs)) = Some (fst (last cs) + quiet_period, snd (last cs)) \<and>
      (T < fst (last cs) + quiet_period \<longrightarrow>
         tasks (step (run w (changes cs)) (T, Idle)) = tasks w) \<and>
      (fst (last cs) + quiet_period \<le> T \<longrightarrow>
         tasks (step (run w (changes cs)) (T, Idle)) =
           tasks w @ (if myWorker w \<and> myEditor w then [AwaitTranspile] else []) \<and>
         length (tasks (step (run w (changes cs)) (T, Idle))) \<le> length (tasks w) + 1 \<and>
         timer (step (run w (changes cs)) (T, Idle)) = None))"
proof -
  have a: "length (tasks (step w (t, e))) \<noteq> length (tasks w) \<longrightarrow>
      e = WorkerReady \<or> debounce_due t (timer w) \<noteq> None"
    using new_cycle_cause[of w t e] by blast
  have b: "timer (step w (t, e)) \<noteq> None \<and> timer (step w (t, e)) \<noteq> timer w \<longrightarrow>
      (\<exists>v. e = Change v)"
    using timer_cause[of w t e] by blast
  have c: "timer (step w (t, Change v)) = Some (t + quiet_period, v)"
    by (simp add: step_def debounce_call_def)
  have d: "tasks (run w (changes cs)) = tasks w \<and>
      timer (run w (changes cs)) = Some (fst (last cs) + quiet_period, snd (last cs)) \<and>
      (T < fst (last cs) + quiet_period \<longrightarrow>
         tasks (step (run w (changes cs)) (T, Idle)) = tasks w) \<and>
      (fst (last cs) + quiet_period \<le> T \<longrightarrow>
         tasks (step (run w (changes cs)) (T, Idle)) =
           tasks w @ (if myWorker w \<and> myEditor w then [AwaitTranspile] else []) \<and>
         length (tasks (step (run w (changes cs)) (T, Idle))) \<le> length (tasks w) + 1 \<and>
         timer (step (run w (changes cs)) (T, Idle)) = None)"
    if h: "cs \<noteq> []" "burst quiet_period cs" "debounce_due (fst (hd cs)) (timer w) = None"
  proof -
    let ?w' = "run w (changes cs)"
    have r: "?w' = w\<lparr>modelText := snd (last cs),
        timer := Some (fst (last cs) + quiet_period, snd (last cs))\<rparr>"
      by (rule burst_run[OF h])
    then have tm: "timer ?w' = Some (fst (last cs) + quiet_period, snd (last cs))"
      and tk: "tasks ?w' = tasks w" and mw: "myWorker ?w' = myWorker w"
      and me: "myEditor ?w' = myEditor w"
      by simp_all
    show ?thesis
      using idle_after_burst[OF tm, of T] tk mw me tm by auto
  qed
  show ?thesis
    using a b c d by (simp add: quiet_period_def)
qed

theorem debounced_cycles_witness:
  "[(100, js ''a''), (200, js ''ab''), (440, js ''abc'')] \<noteq> [] \<and>
   burst quiet_period [(100, js ''a''), (200, js ''ab''), (440, js ''abc'')] \<and>
   debounce_due 100 (timer (run (init_world (js ''old'') ()) mounted)) = None \<and>
   tasks (run (run (init_world (js ''old'') ()) mounted)
            (changes [(100, js ''a''), (200, js ''ab''), (440, js ''abc'')])) =
     [AwaitTranspile] \<and>
   tasks (step (run (run (init_world (js ''old'') ()) mounted)
                  (changes [(100, js ''a''), (200, js ''ab''), (440, js ''abc'')]))
            (689, Idle)) = [AwaitTranspile] \<and>
   tasks (step (run (run (init_world (js ''old'') ()) mounted)
                  (changes [(100, js ''a''), (200, js ''ab''), (440, js ''abc'')]))
            (690, Idle)) = [AwaitTranspile, AwaitTranspile] \<and>
   length (tasks (step (run (init_world (js ''old'') ()) (take 3 late_landing)) (350, Idle))) \<noteq>
     length (tasks (run (init_world (js ''old'') ()) (take 3 late_landing))) \<and>
   debounce_due 350 (timer (run (init_world (js ''old'') ()) (take 3 late_landing))) \<noteq> None \<and>
   timer (step (run (init_world (js ''old'') ()) mounted) (100, Change (js ''a''))) =
     Some (350, js ''a'')"
proof -
  let ?W = "run (init_world (js ''old'') ()) mounted :: (unit, nat) world"
  let ?cs = "[(100, js ''a''), (200, js ''ab''), (440, js ''abc'')]"
  have W: "tasks ?W = [AwaitTranspile]" "myWorker ?W" "myEditor ?W" "timer ?W = None"
    by (simp_all add: mounted_run)
  have h: "?cs \<noteq> [] \<and> burst quiet_period ?cs \<and> debounce_due (fst (hd ?cs)) (timer ?W) = None"
    by (simp add: quiet_period_def W debounce_due_def)
  have t: "(689::nat) < fst (last ?cs) + quiet_period" "fst (last ?cs) + quiet_period \<le> (690::nat)"
    by (simp_all add: quiet_period_def)
  from debounced_cycles[of ?W 0 Idle "js ''a''" ?cs 689] h t(1)
  have a: "tasks (run ?W (changes ?cs)) = tasks ?W"
    "tasks (step (run ?W (changes ?cs)) (689, Idle)) = tasks ?W"
    by blast+
  from debounced_cycles[of ?W 0 Idle "js ''a''" ?cs 690] h t(2)
  have b: "tasks (step (run ?W (changes ?cs)) (690, Idle)) =
      tasks ?W @ (if myWorker ?W \<and> myEditor ?W then [AwaitTranspile] else [])"
    by blast
  let ?V = "run (init_world (js ''old'') ()) (take 3 late_landing) :: (unit, nat) world"
  have V: "length (tasks (step ?V (350, Idle))) \<noteq> length (tasks ?V)"
    by (simp add: late_landing_def world_defs)
  from debounced_cycles[of ?V 350 Idle "js ''a''" "[]" 0] V
  have c: "debounce_due 350 (timer ?V) \<noteq> None"
    by blast
  from debounced_cycles[of ?W 100 Idle "js ''a''" "[]" 0]
  have d: "timer (step ?W (100, Change (js ''a''))) = Some (100 + quiet_period, js ''a'')"
    by blast
  show ?thesis
    using h a b c d V W by (simp add: quiet_period_def)
qed


end
